theory Spec2Isabelle
  imports Main "HOL-Library.Sublist"
begin

section \<open>github-actions-merger: a shallow embedding of main.go\<close>

text \<open>
  Go strings are byte sequences; they are modelled as \<open>string\<close> (a list of 8-bit
  characters). Go's \<open>==\<close> on strings is byte-wise equality, which is HOL's \<open>=\<close>.
  A Go \<open>error\<close> is observed by this program only through its \<open>Error()\<close> text, so an
  error value is modelled as that text, and a possibly-nil error as \<open>string option\<close>
  (\<open>None\<close> is \<open>nil\<close>).
\<close>

type_synonym error = string

subsection \<open>Inputs\<close>

record env =
  GithubToken :: string
  Owner :: string
  Repo :: string
  PRNumber :: int
  Comment :: string
  MergeMethod :: string
  Mergers :: "string list"
  Actor :: string
  EnableAutoMerge :: bool

definition mergeComment :: string where
  "mergeComment = ''/merge''"

subsection \<open>validateEnv\<close>

text \<open>The two \<open>fmt.Errorf\<close> values of \<open>validateEnv\<close>.\<close>

definition errBadComment :: "string \<Rightarrow> error" where
  "errBadComment c = ''comment must be '' @ mergeComment @ '', got '' @ c"

definition errActorNotInMergers :: "string \<Rightarrow> error" where
  "errActorNotInMergers a = ''actor '' @ a @ '' is not in mergers list''"

text \<open>The loop \<open>for _, m := range e.Mergers { if e.Actor == m { return nil } }\<close>:
  \<open>True\<close> when it returns from inside the loop.\<close>

fun actorMatches :: "string \<Rightarrow> string list \<Rightarrow> bool" where
  "actorMatches a [] = False"
| "actorMatches a (m # ms) = (if a = m then True else actorMatches a ms)"

definition validateEnv :: "env \<Rightarrow> error option" where
  "validateEnv e =
     (if Comment e \<noteq> mergeComment then Some (errBadComment (Comment e))
      else if length (Mergers e) = 0 then None
      else if actorMatches (Actor e) (Mergers e) then None
      else Some (errActorNotInMergers (Actor e)))"

subsection \<open>The regexp package, for the two patterns of the program\<close>

text \<open>
  Both patterns are built from literals, one capture group and one repetition of a
  character class: \<open>.\<close> (any character but a newline, since the \<open>s\<close> flag is not set) and
  \<open>[0-9]\<close>. Go's matcher works on UTF-8 runes; a byte below \<open>0x80\<close> is always a rune of
  its own, and both classes are followed by an ASCII literal, so matching byte by byte
  finds the same matches.
\<close>

datatype cls = AnyCharNotNL | Digit

fun in_cls :: "cls \<Rightarrow> char \<Rightarrow> bool" where
  "in_cls AnyCharNotNL c = (c \<noteq> CHR 0x0A)"
| "in_cls Digit c = (c \<in> set ''0123456789'')"

datatype regexp =
    Lit string
  | PlusLazy cls
  | PlusGreedy cls
  | Cat regexp regexp
  | Group regexp

text \<open>
  \<open>runs re s\<close> lists every way \<open>re\<close> matches a prefix of \<open>s\<close>, in the order in which a
  backtracking matcher tries them (Go's leftmost-first preference): the matched text,
  the texts of the capture groups in the order of their opening parentheses, and the
  rest of the input. A lazy repetition tries the shortest run first, a greedy one the
  longest.
\<close>

fun runs :: "regexp \<Rightarrow> string \<Rightarrow> (string \<times> string list \<times> string) list" where
  "runs (Lit l) s = (if prefix l s then [(l, [], drop (length l) s)] else [])"
| "runs (PlusLazy c) s =
     map (\<lambda>n. (take n s, [], drop n s)) [1..<Suc (length (takeWhile (in_cls c) s))]"
| "runs (PlusGreedy c) s =
     rev (map (\<lambda>n. (take n s, [], drop n s)) [1..<Suc (length (takeWhile (in_cls c) s))])"
| "runs (Cat a b) s =
     concat (map (\<lambda>(m1, c1, r1). map (\<lambda>(m2, c2, r2). (m1 @ m2, c1 @ c2, r2)) (runs b r1))
                 (runs a s))"
| "runs (Group a) s = map (\<lambda>(m, c, r). (m, m # c, r)) (runs a s)"

text \<open>
  \<open>Regexp.FindStringSubmatch\<close>: the first preferred match at the leftmost position
  where there is one, as the list of the whole match and the groups; \<open>nil\<close> (the empty
  list) when there is no match.
\<close>

fun FindStringSubmatch :: "regexp \<Rightarrow> string \<Rightarrow> string list" where
  "FindStringSubmatch re [] = (case runs re [] of [] \<Rightarrow> [] | (m, cs, r) # _ \<Rightarrow> m # cs)"
| "FindStringSubmatch re (x # xs) =
     (case runs re (x # xs) of
        [] \<Rightarrow> FindStringSubmatch re xs
      | (m, cs, r) # _ \<Rightarrow> m # cs)"

text \<open>\<open>"At least ([0-9]+) approving review is required by reviewers with write access"\<close>\<close>

definition needApproveRegexp :: regexp where
  "needApproveRegexp =
     Cat (Lit ''At least '')
       (Cat (Group (PlusGreedy Digit))
            (Lit '' approving review is required by reviewers with write access''))"

text \<open>\<open>"```release-note\n(.+?)\n```"\<close>\<close>

definition releaseNoteRegexp :: regexp where
  "releaseNoteRegexp =
     Cat (Lit ''```release-note\<newline>'')
       (Cat (Group (PlusLazy AnyCharNotNL)) (Lit ''\<newline>```''))"

subsection \<open>The strings package\<close>

text \<open>
  \<open>strings.TrimSpace\<close> removes leading and trailing white space as defined by Unicode
  (\<open>unicode.IsSpace\<close>): the six ASCII characters, U+0085, U+00A0, U+1680, U+2000 to
  U+200A, U+2028, U+2029, U+202F, U+205F and U+3000. On the bytes of the string these
  are the UTF-8 encodings below; no encoding is a prefix or a suffix of another, and a
  byte sequence that is not one of them decodes to a rune that is not a space.
\<close>

definition asciiSpace :: "char list" where
  "asciiSpace = [CHR 0x09, CHR 0x0A, CHR 0x0B, CHR 0x0C, CHR 0x0D, CHR 0x20]"

definition spaceRunes :: "string list" where
  "spaceRunes =
     map (\<lambda>c. [c]) asciiSpace
     @ [[CHR 0xC2, CHR 0x85], [CHR 0xC2, CHR 0xA0], [CHR 0xE1, CHR 0x9A, CHR 0x80]]
     @ map (\<lambda>b. [CHR 0xE2, CHR 0x80, b])
         [CHR 0x80, CHR 0x81, CHR 0x82, CHR 0x83, CHR 0x84, CHR 0x85, CHR 0x86, CHR 0x87,
          CHR 0x88, CHR 0x89, CHR 0x8A, CHR 0xA8, CHR 0xA9, CHR 0xAF]
     @ [[CHR 0xE2, CHR 0x81, CHR 0x9F], [CHR 0xE3, CHR 0x80, CHR 0x80]]"

function (sequential) stripLeading :: "string list \<Rightarrow> string \<Rightarrow> string" where
  "stripLeading ws [] = []"
| "stripLeading ws (c # cs) =
     (case find (\<lambda>w. w \<noteq> [] \<and> prefix w (c # cs)) ws of
        None \<Rightarrow> c # cs
      | Some w \<Rightarrow> stripLeading ws (drop (length w) (c # cs)))"
  by pat_completeness auto
termination
  by (relation "measure (\<lambda>(ws, s). length s)") (auto simp: find_Some_iff)

definition TrimLeft :: "string \<Rightarrow> string" where
  "TrimLeft s = stripLeading spaceRunes s"

definition TrimRight :: "string \<Rightarrow> string" where
  "TrimRight s = rev (stripLeading (map rev spaceRunes) (rev s))"

definition TrimSpace :: "string \<Rightarrow> string" where
  "TrimSpace s = TrimRight (TrimLeft s)"

text \<open>
  \<open>strings.ReplaceAll(s, old, "")\<close>: every non-overlapping occurrence of \<open>old\<close> is
  removed, scanning from the left. The replacement is always the empty string in this
  program, so it is not a parameter; with it an empty \<open>old\<close> leaves \<open>s\<close> as it is.
\<close>

function (sequential) ReplaceAllEmpty :: "string \<Rightarrow> string \<Rightarrow> string" where
  "ReplaceAllEmpty [] old = []"
| "ReplaceAllEmpty (c # cs) old =
     (if old \<noteq> [] \<and> prefix old (c # cs)
      then ReplaceAllEmpty (drop (length old) (c # cs)) old
      else c # ReplaceAllEmpty cs old)"
  by pat_completeness auto
termination
  by (relation "measure (\<lambda>(s, old). length s)") auto

subsection \<open>errMsg and splitReleaseNote\<close>

definition errMsg :: "error option \<Rightarrow> string" where
  "errMsg err =
     (case err of
        None \<Rightarrow> ''Succeeded!''
      | Some e \<Rightarrow>
          (let ss = FindStringSubmatch needApproveRegexp e in
           if length ss = 2 then ''Need '' @ ss ! 1 @ '' approving review'' else e))"

definition splitReleaseNote :: "string \<Rightarrow> string \<times> string" where
  "splitReleaseNote body =
     (let ss = FindStringSubmatch releaseNoteRegexp body in
      if length ss \<noteq> 2 then (body, ''NONE'')
      else (let rn = TrimSpace (ss ! 1) in
            if rn \<noteq> [] then (ReplaceAllEmpty body (ss ! 0), rn) else (body, ''NONE'')))"

subsection \<open>The text/template package, for the constructs of bodyTpl\<close>

text \<open>
  A template is text with actions between \<open>{{\<close> and \<open>}}\<close>. An action that starts
  with \<open>{{-\<close> and white space trims all trailing white space from the text before it; one
  that ends with white space and \<open>-}}\<close> trims all leading white space from the text after
  it. White space is space, tab, carriage return and newline. The actions modelled are
  the ones bodyTpl uses: \<open>if\<close>, \<open>range\<close>, \<open>end\<close>, and printing a field or the dot.
\<close>

definition tplSpace :: "char \<Rightarrow> bool" where
  "tplSpace c \<longleftrightarrow> c \<in> set [CHR 0x20, CHR 0x09, CHR 0x0D, CHR 0x0A]"

text \<open>The text before the first occurrence of a delimiter, and the text after it.\<close>

fun splitAt :: "string \<Rightarrow> string \<Rightarrow> (string \<times> string) option" where
  "splitAt d [] = (if d = [] then Some ([], []) else None)"
| "splitAt d (c # cs) =
     (if prefix d (c # cs) then Some ([], drop (length d) (c # cs))
      else map_option (\<lambda>(a, b). (c # a, b)) (splitAt d cs))"

lemma splitAt_Some: "splitAt d s = Some (a, b) \<Longrightarrow> s = a @ d @ b"
proof (induction s arbitrary: a b)
  case Nil
  then show ?case by (simp split: if_splits)
next
  case (Cons c cs)
  show ?case
  proof (cases "prefix d (c # cs)")
    case True
    with Cons.prems show ?thesis by (auto simp: prefix_def)
  next
    case False
    with Cons.prems obtain a' where "splitAt d cs = Some (a', b)" and "a = c # a'"
      by auto
    with Cons.IH show ?thesis by simp
  qed
qed

datatype token = TText string | TAction string

definition hasLeftTrimMarker :: "string \<Rightarrow> bool" where
  "hasLeftTrimMarker s \<longleftrightarrow> length s \<ge> 2 \<and> s ! 0 = CHR ''-'' \<and> tplSpace (s ! 1)"

definition hasRightTrimMarker :: "string \<Rightarrow> bool" where
  "hasRightTrimMarker s \<longleftrightarrow>
     length s \<ge> 2 \<and> tplSpace (s ! (length s - 2)) \<and> s ! (length s - 1) = CHR ''-''"

definition rightTrim :: "string \<Rightarrow> string" where
  "rightTrim s = rev (dropWhile tplSpace (rev s))"

definition leftTrim :: "string \<Rightarrow> string" where
  "leftTrim s = dropWhile tplSpace s"

text \<open>
  The lexer: text up to the next \<open>{{\<close>, the action up to the next \<open>}}\<close> without its trim
  markers, and so on; the trimming is done here, as in the package. An action that is
  not closed is a parse error (\<open>None\<close>).
\<close>

function lex :: "string \<Rightarrow> token list option" where
  "lex s =
     (case splitAt ''{{'' s of
        None \<Rightarrow> Some [TText s]
      | Some (txt, r) \<Rightarrow>
          (case splitAt ''}}'' r of
             None \<Rightarrow> None
           | Some (act, r') \<Rightarrow>
               (let lt = hasLeftTrimMarker act;
                    act1 = (if lt then drop 2 act else act);
                    rt = hasRightTrimMarker act1;
                    act2 = (if rt then take (length act1 - 2) act1 else act1)
                in map_option
                     (\<lambda>ts. TText (if lt then rightTrim txt else txt) # TAction act2 # ts)
                     (lex (if rt then leftTrim r' else r')))))"
  by pat_completeness auto
termination
proof (relation "measure length")
  show "wf (measure length)" by simp
next
  fix s :: string and x2 x y x2a act r' and rt :: bool
  assume a: "splitAt ''{{'' s = Some x2" "(x, y) = x2"
    "splitAt ''}}'' y = Some x2a" "(act, r') = x2a"
  from a(1,2) have s: "s = x @ ''{{'' @ y" by (metis splitAt_Some)
  from a(3,4) have y: "y = act @ ''}}'' @ r'" by (metis splitAt_Some)
  have "length (leftTrim r') \<le> length r'" by (simp add: leftTrim_def length_dropWhile_le)
  with s y show "((if rt then leftTrim r' else r'), s) \<in> measure length"
    by auto
qed

datatype pipe = PDot | PField string

datatype action = AIf pipe | ARange pipe | AEnd | APrint pipe

text \<open>The words of an action, separated by white space.\<close>

fun fields :: "string \<Rightarrow> string \<Rightarrow> string list" where
  "fields acc [] = (if acc = [] then [] else [rev acc])"
| "fields acc (c # cs) =
     (if tplSpace c then (if acc = [] then fields [] cs else rev acc # fields [] cs)
      else fields (c # acc) cs)"

fun parsePipe :: "string \<Rightarrow> pipe option" where
  "parsePipe [] = None"
| "parsePipe (c # cs) =
     (if c \<noteq> CHR ''.'' then None else if cs = [] then Some PDot else Some (PField cs))"

definition parseAction :: "string \<Rightarrow> action option" where
  "parseAction s =
     (case fields [] s of
        [w] \<Rightarrow> if w = ''end'' then Some AEnd else map_option APrint (parsePipe w)
      | [k, w] \<Rightarrow>
          if k = ''if'' then map_option AIf (parsePipe w)
          else if k = ''range'' then map_option ARange (parsePipe w)
          else None
      | _ \<Rightarrow> None)"

datatype node = NText string | NPrint pipe | NIf pipe "node list" | NRange pipe "node list"

datatype frame = FIf pipe "node list" | FRange pipe "node list"

text \<open>
  The parser: the tokens become a tree, each \<open>if\<close> and \<open>range\<close> closed by its \<open>end\<close>. The
  stack holds the open actions with the nodes read before them; empty texts are left out.
\<close>

fun build :: "token list \<Rightarrow> frame list \<Rightarrow> node list \<Rightarrow> node list option" where
  "build [] [] acc = Some (rev acc)"
| "build [] (f # fs) acc = None"
| "build (TText s # ts) st acc = build ts st (if s = [] then acc else NText s # acc)"
| "build (TAction a # ts) st acc =
     (case parseAction a of
        None \<Rightarrow> None
      | Some (APrint p) \<Rightarrow> build ts st (NPrint p # acc)
      | Some (AIf p) \<Rightarrow> build ts (FIf p acc # st) []
      | Some (ARange p) \<Rightarrow> build ts (FRange p acc # st) []
      | Some AEnd \<Rightarrow>
          (case st of
             [] \<Rightarrow> None
           | FIf p outer # st' \<Rightarrow> build ts st' (NIf p (rev acc) # outer)
           | FRange p outer # st' \<Rightarrow> build ts st' (NRange p (rev acc) # outer)))"

definition Parse :: "string \<Rightarrow> node list option" where
  "Parse src = (case lex src of None \<Rightarrow> None | Some ts \<Rightarrow> build ts [] [])"

subsection \<open>Pull requests and the commit body\<close>

text \<open>
  go-github's \<open>PullRequest\<close> and \<open>Label\<close>, with the fields the program reads. They are
  pointers in Go; a getter returns the zero value for \<open>nil\<close>.
\<close>

record Label =
  Name :: "string option"

record PullRequest =
  Number :: "int option"
  Title :: "string option"
  Body :: "string option"
  Labels :: "Label list"

definition GetName :: "Label \<Rightarrow> string" where
  "GetName l = (case Name l of None \<Rightarrow> [] | Some n \<Rightarrow> n)"

definition GetNumber :: "PullRequest \<Rightarrow> int" where
  "GetNumber pr = (case Number pr of None \<Rightarrow> 0 | Some n \<Rightarrow> n)"

definition GetTitle :: "PullRequest \<Rightarrow> string" where
  "GetTitle pr = (case Title pr of None \<Rightarrow> [] | Some t \<Rightarrow> t)"

definition GetBody :: "PullRequest \<Rightarrow> string" where
  "GetBody pr = (case Body pr of None \<Rightarrow> [] | Some b \<Rightarrow> b)"

record commitBody =
  Labels :: "string list"
  Message :: string
  ReleaseNote :: string

text \<open>The values a template sees: the commit body, and inside \<open>range\<close> one label.\<close>

datatype val = VStruct commitBody | VString string | VStrings "string list"

fun evalPipe :: "val \<Rightarrow> pipe \<Rightarrow> val option" where
  "evalPipe d PDot = Some d"
| "evalPipe (VStruct b) (PField n) =
     (if n = ''Labels'' then Some (VStrings (Labels b))
      else if n = ''Message'' then Some (VString (Message b))
      else if n = ''ReleaseNote'' then Some (VString (ReleaseNote b))
      else None)"
| "evalPipe _ (PField n) = None"

text \<open>The truth of a value: a string or a slice is true when it is not empty.\<close>

fun truth :: "val \<Rightarrow> bool" where
  "truth (VStruct b) = True"
| "truth (VString s) = (s \<noteq> [])"
| "truth (VStrings xs) = (xs \<noteq> [])"

fun joinSp :: "string list \<Rightarrow> string" where
  "joinSp [] = []"
| "joinSp [x] = x"
| "joinSp (x # y # ys) = x @ '' '' @ joinSp (y # ys)"

text \<open>Printing, as \<open>fmt.Fprint\<close> does; bodyTpl prints strings only.\<close>

fun printValue :: "val \<Rightarrow> string" where
  "printValue (VString s) = s"
| "printValue (VStrings xs) = ''['' @ joinSp xs @ '']''"
| "printValue (VStruct b) =
     ''{['' @ joinSp (Labels b) @ ''] '' @ Message b @ '' '' @ ReleaseNote b @ ''}''"

fun concatOpts :: "string option list \<Rightarrow> string option" where
  "concatOpts [] = Some []"
| "concatOpts (None # xs) = None"
| "concatOpts (Some s # xs) = map_option ((@) s) (concatOpts xs)"

text \<open>
  Execution writes the output of each node in turn; \<open>None\<close> is an execution error (a
  field that the value does not have, a \<open>range\<close> over something that is not a slice).
\<close>

fun exec :: "val \<Rightarrow> node \<Rightarrow> string option" where
  "exec d (NText s) = Some s"
| "exec d (NPrint p) = map_option printValue (evalPipe d p)"
| "exec d (NIf p ns) =
     (case evalPipe d p of
        None \<Rightarrow> None
      | Some v \<Rightarrow> if truth v then concatOpts (map (exec d) ns) else Some [])"
| "exec d (NRange p ns) =
     (case evalPipe d p of
        Some (VStrings xs) \<Rightarrow>
          concatOpts (map (\<lambda>x. concatOpts (map (exec (VString x)) ns)) xs)
      | _ \<Rightarrow> None)"

definition Execute :: "node list \<Rightarrow> val \<Rightarrow> string option" where
  "Execute t d = concatOpts (map (exec d) t)"

text \<open>
  The template text of \<open>bodyTpl\<close>: the raw string literal of the source, a newline for
  each line break in it, and the second literal that the source appends to it.
\<close>

definition bodyTplSource :: string where
  "bodyTplSource =
     ''\<newline>{{- if .Message }}\<newline>{{ .Message }}\<newline>{{- end }}\<newline>{{if .Labels}}\<newline>Labels:\<newline>{{- range .Labels }}\<newline>  * {{ . }}\<newline>{{- end -}}\<newline>{{- end -}}\<newline>''
     @ ''\<newline>\<newline>```release-note\<newline>* {{ .ReleaseNote }}\<newline>```''"

definition bodyTpl :: "node list option" where
  "bodyTpl = Parse bodyTplSource"

definition newCommitBody :: "PullRequest \<Rightarrow> commitBody" where
  "newCommitBody pr =
     (let labels = map GetName (PullRequest.Labels pr);
          (description, releaseNote) = splitReleaseNote (GetBody pr)
      in \<lparr>Labels = labels, Message = description, ReleaseNote = releaseNote\<rparr>)"

text \<open>
  The text of an error of the template package is not modelled: \<open>template.Must\<close> would
  stop the program at start-up on a parse error, and an execution error of bodyTpl does
  not happen (lemma \<open>generateCommitBody_render\<close>).
\<close>

definition errTemplate :: error where
  "errTemplate = ''template: commit''"

definition generateCommitBody :: "PullRequest \<Rightarrow> error + string" where
  "generateCommitBody pr =
     (let body = newCommitBody pr in
      case bodyTpl of
        None \<Rightarrow> Inl errTemplate
      | Some t \<Rightarrow>
          (case Execute t (VStruct body) of None \<Rightarrow> Inl errTemplate | Some out \<Rightarrow> Inr out))"

text \<open>\<open>%d\<close> and \<open>strconv.Itoa\<close>: a number in decimal.\<close>

fun digitsOf :: "nat \<Rightarrow> string" where
  "digitsOf n =
     (if n < 10 then [char_of (48 + n)] else digitsOf (n div 10) @ [char_of (48 + n mod 10)])"

declare digitsOf.simps [simp del]

definition Itoa :: "int \<Rightarrow> string" where
  "Itoa i = (if i < 0 then ''-'' @ digitsOf (nat (- i)) else digitsOf (nat i))"

definition generateCommitSubject :: "PullRequest \<Rightarrow> string" where
  "generateCommitSubject pr = GetTitle pr @ '' (#'' @ Itoa (GetNumber pr) @ '')''"

subsection \<open>The GitHub client, merge, sendMsg and main\<close>

text \<open>
  The program's effects are calls to GitHub (the API client and the \<open>gh\<close> command) and
  output on stdout. What GitHub answers is not decided by the program: \<open>remote\<close> holds
  the answer to each call, an error text or success. \<open>world\<close> records the calls made
  and the text printed, in order; a \<open>GhCall\<close> holds the arguments given to the \<open>gh\<close>
  command.
\<close>

record remote =
  PullRequests_Get :: "string \<Rightarrow> string \<Rightarrow> int \<Rightarrow> error + PullRequest"
  PullRequests_Merge ::
    "string \<Rightarrow> string \<Rightarrow> int \<Rightarrow> string \<Rightarrow> string \<Rightarrow> string \<Rightarrow> error option"
  gh_Run :: "string list \<Rightarrow> error option"
  Issues_CreateComment :: "string \<Rightarrow> string \<Rightarrow> int \<Rightarrow> string \<Rightarrow> error option"

datatype call =
    GetCall string string int
  | MergeCall string string int string string string
  | GhCall "string list"
  | CommentCall string string int string

record world =
  calls :: "call list"
  stdout :: string

definition did :: "call \<Rightarrow> world \<Rightarrow> world" where
  "did c w = w\<lparr>calls := calls w @ [c]\<rparr>"

definition Printf :: "string \<Rightarrow> world \<Rightarrow> world" where
  "Printf s w = w\<lparr>stdout := stdout w @ s\<rparr>"

definition sendMsg ::
  "remote \<Rightarrow> string \<Rightarrow> string \<Rightarrow> int \<Rightarrow> string \<Rightarrow> world \<Rightarrow> error option \<times> world" where
  "sendMsg gh owner repo prNumber msg w =
     (let w1 = did (CommentCall owner repo prNumber msg) w in
      case Issues_CreateComment gh owner repo prNumber msg of
        Some err \<Rightarrow> (Some (''failed to send message: '' @ err), w1)
      | None \<Rightarrow> (None, w1))"

definition merge ::
  "remote \<Rightarrow> string \<Rightarrow> string \<Rightarrow> int \<Rightarrow> string \<Rightarrow> bool \<Rightarrow> world \<Rightarrow> error option \<times> world" where
  "merge gh owner repo prNumber mergeMethod enableAutoMerge w =
     (let w1 = did (GetCall owner repo prNumber) w in
      case PullRequests_Get gh owner repo prNumber of
        Inl err \<Rightarrow> (Some (''failed to get pull request: '' @ err), w1)
      | Inr pr \<Rightarrow>
          (case generateCommitBody pr of
             Inl err \<Rightarrow> (Some (''failed to generate template: '' @ err), w1)
           | Inr commitMsg \<Rightarrow>
               (let (err, w2) =
                      (if enableAutoMerge then
                         (let args = [''pr'', ''merge'', Itoa prNumber, ''--'' @ mergeMethod,
                                      ''--auto'', ''--subject'', generateCommitSubject pr,
                                      ''--body'', commitMsg, ''--repo'', owner @ ''/'' @ repo]
                          in (gh_Run gh args, did (GhCall args) w1))
                       else
                         (PullRequests_Merge gh owner repo prNumber commitMsg
                            (generateCommitSubject pr) mergeMethod,
                          did (MergeCall owner repo prNumber commitMsg
                                 (generateCommitSubject pr) mergeMethod) w1))
                in case err of
                     Some e \<Rightarrow> (Some (''failed to merge pull request: '' @ e), w2)
                   | None \<Rightarrow> (None, w2))))"

text \<open>
  How the process ends: \<open>main\<close> returns (exit code 0) or panics with a message (a
  non-zero exit code). The first argument of \<open>main\<close> after the remote is the result of
  \<open>envconfig.Process\<close>: an error text or the inputs.
\<close>

datatype exit = Returned | Panic string

definition main :: "remote \<Rightarrow> error + env \<Rightarrow> world \<Rightarrow> exit \<times> world" where
  "main gh loaded w =
     (case loaded of
        Inl err \<Rightarrow> (Panic err, Printf (''failed to load inputs: '' @ err @ ''\<newline>'') w)
      | Inr e \<Rightarrow>
          (case validateEnv e of
             Some err \<Rightarrow>
               (let (serr, w1) = sendMsg gh (Owner e) (Repo e) (PRNumber e) (errMsg (Some err)) w
                in case serr of
                     Some se \<Rightarrow>
                       (Panic se,
                        Printf (''failed to send message: '' @ se @ '' original: '' @ err) w1)
                   | None \<Rightarrow> (Panic err, Printf (''failed to validate env: '' @ err) w1))
           | None \<Rightarrow>
               (let (merr, w1) =
                      merge gh (Owner e) (Repo e) (PRNumber e) (MergeMethod e)
                        (EnableAutoMerge e) w
                in case merr of
                     Some err \<Rightarrow>
                       (let (serr, w2) =
                              sendMsg gh (Owner e) (Repo e) (PRNumber e) (errMsg (Some err)) w1
                        in case serr of
                             Some se \<Rightarrow>
                               (Panic se,
                                Printf (''failed to send message: '' @ se @ '' original: '' @ err)
                                  w2)
                           | None \<Rightarrow> (Panic err, Printf (''failed to merge: '' @ err) w2))
                   | None \<Rightarrow>
                       (let successMsg =
                              ''Merged PR #'' @ Itoa (PRNumber e) @ '' successfully!'';
                            (serr, w2) =
                              sendMsg gh (Owner e) (Repo e) (PRNumber e) successMsg w1
                        in case serr of
                             Some se \<Rightarrow> (Panic se, Printf (''failed to send message: '' @ se) w2)
                           | None \<Rightarrow> (Returned, Printf successMsg w2)))))"

text \<open>The comments a run has tried to post, in order.\<close>

fun commentsOf :: "call list \<Rightarrow> string list" where
  "commentsOf [] = []"
| "commentsOf (CommentCall owner repo n msg # cs) = msg # commentsOf cs"
| "commentsOf (c # cs) = commentsOf cs"

subsection \<open>What a match is: the vocabulary of the properties\<close>

text \<open>
  Both patterns have the form: a literal \<open>a\<close>, a captured non-empty run \<open>g\<close> of characters
  of a class \<open>c\<close>, a literal \<open>b\<close>. \<open>has_match\<close> says that the string contains a text of this
  form somewhere; \<open>first_match\<close> names the leftmost one: the text before it, the captured
  run and the text after it. These are statements about the string alone; the lemmas
  \<open>find_first_match\<close> and \<open>find_no_match\<close> relate them to \<open>FindStringSubmatch\<close>.
\<close>

definition has_match :: "string \<Rightarrow> cls \<Rightarrow> string \<Rightarrow> string \<Rightarrow> bool" where
  "has_match a c b s \<longleftrightarrow>
     (\<exists>pre g post. s = pre @ a @ g @ b @ post \<and> g \<noteq> [] \<and> (\<forall>x\<in>set g. in_cls c x))"

definition first_match ::
  "string \<Rightarrow> cls \<Rightarrow> string \<Rightarrow> string \<Rightarrow> string \<Rightarrow> string \<Rightarrow> string \<Rightarrow> bool" where
  "first_match a c b s pre g post \<longleftrightarrow>
     s = pre @ a @ g @ b @ post \<and> g \<noteq> [] \<and> (\<forall>x\<in>set g. in_cls c x) \<and>
     (\<forall>pre' g' post'.
        s = pre' @ a @ g' @ b @ post' \<and> g' \<noteq> [] \<and> (\<forall>x\<in>set g'. in_cls c x)
        \<longrightarrow> length pre \<le> length pre')"

text \<open>The regular expression of this form, with a lazy or a greedy repetition.\<close>

definition plus_re :: "bool \<Rightarrow> string \<Rightarrow> cls \<Rightarrow> string \<Rightarrow> regexp" where
  "plus_re lazy a c b =
     Cat (Lit a) (Cat (Group (if lazy then PlusLazy c else PlusGreedy c)) (Lit b))"

text \<open>
  A release-note block: the opening fence and a newline, one line of content that is not
  empty, a newline and the closing fence. \<open>releaseNoteBlock body pre g post\<close>: the
  leftmost block of \<open>body\<close> has the content \<open>g\<close>, after \<open>pre\<close> and before \<open>post\<close>.
\<close>

definition fenceOpen :: string where
  "fenceOpen = ''```release-note\<newline>''"

definition fenceClose :: string where
  "fenceClose = ''\<newline>```''"

definition releaseNoteBlock :: "string \<Rightarrow> string \<Rightarrow> string \<Rightarrow> string \<Rightarrow> bool" where
  "releaseNoteBlock body pre g post \<longleftrightarrow>
     first_match fenceOpen AnyCharNotNL fenceClose body pre g post"

definition hasReleaseNoteBlock :: "string \<Rightarrow> bool" where
  "hasReleaseNoteBlock body \<longleftrightarrow> has_match fenceOpen AnyCharNotNL fenceClose body"

text \<open>
  The specification's reading of the description, "the matched block removed at its
  first occurrence only": \<open>strings.Replace(s, old, "", 1)\<close>. The program does not call it;
  it is here to be compared with \<open>ReplaceAllEmpty\<close>.
\<close>

fun ReplaceFirstEmpty :: "string \<Rightarrow> string \<Rightarrow> string" where
  "ReplaceFirstEmpty [] old = []"
| "ReplaceFirstEmpty (c # cs) old =
     (if old \<noteq> [] \<and> prefix old (c # cs) then drop (length old) (c # cs)
      else c # ReplaceFirstEmpty cs old)"

text \<open>
  The message of GitHub about missing approvals: \<open>needApproveMatch msg pre n post\<close> says
  that its leftmost occurrence in \<open>msg\<close> has the digits \<open>n\<close>.
\<close>

definition atLeast_lit :: string where
  "atLeast_lit = ''At least ''"

definition approving_lit :: string where
  "approving_lit = '' approving review is required by reviewers with write access''"

definition needApproveMatch :: "string \<Rightarrow> string \<Rightarrow> string \<Rightarrow> string \<Rightarrow> bool" where
  "needApproveMatch msg pre n post \<longleftrightarrow>
     first_match atLeast_lit Digit approving_lit msg pre n post"

definition hasNeedApprove :: "string \<Rightarrow> bool" where
  "hasNeedApprove msg \<longleftrightarrow> has_match atLeast_lit Digit approving_lit msg"



text \<open>
  A text holds an extractable block when its leftmost release-note block has a content
  that does not trim to the empty string: \<open>splitReleaseNote\<close> then returns that content.
\<close>

definition extractable :: "string \<Rightarrow> bool" where
  "extractable d \<longleftrightarrow> (\<exists>pre g post. releaseNoteBlock d pre g post \<and> TrimSpace g \<noteq> [])"

subsection \<open>Lines and failures: more vocabulary of the properties\<close>

text \<open>The lines of a text: it is split at each newline.\<close>

fun splitLines :: "string \<Rightarrow> string \<Rightarrow> string list" where
  "splitLines acc [] = [rev acc]"
| "splitLines acc (c # cs) =
     (if c = CHR 0x0A then rev acc # splitLines [] cs else splitLines (c # acc) cs)"

text \<open>
  The error with which a run fails, if it does: the error of \<open>validateEnv\<close> (a comment
  that is not the trigger, an actor who is not a merger), or else the error of \<open>merge\<close>
  (the pull request could not be fetched, or the merge was refused).
\<close>

definition failure :: "remote \<Rightarrow> env \<Rightarrow> world \<Rightarrow> error option" where
  "failure gh e w =
     (case validateEnv e of
        Some err \<Rightarrow> Some err
      | None \<Rightarrow>
          fst (merge gh (Owner e) (Repo e) (PRNumber e) (MergeMethod e) (EnableAutoMerge e) w))"

section \<open>Properties\<close>

subsection \<open>validateEnv\<close>

lemma actorMatches_iff: "actorMatches a ms \<longleftrightarrow> a \<in> set ms"
  by (induction ms) auto

lemma errBadComment_neq_errActor: "errBadComment c \<noteq> errActorNotInMergers a"
  by (simp add: errBadComment_def errActorNotInMergers_def)

text \<open>
  C1. Whenever the triggering comment is not exactly \<open>/merge\<close>, \<open>validateEnv\<close> fails with
  the bad-comment error, whatever the actor and the mergers list are. With the right
  comment it succeeds when the mergers list is empty; with a non-empty list it succeeds
  exactly when the actor is equal (as a byte string, so case-sensitively) to an element of
  the list, and fails with the actor error otherwise. The two errors are different values.
\<close>

theorem validateEnv_spec:
  "(Comment e \<noteq> ''/merge'' \<longrightarrow> validateEnv e = Some (errBadComment (Comment e)))
   \<and> (Comment e = ''/merge'' \<and> Mergers e = [] \<longrightarrow> validateEnv e = None)
   \<and> (Comment e = ''/merge'' \<and> Mergers e \<noteq> [] \<longrightarrow>
        (validateEnv e = None \<longleftrightarrow> Actor e \<in> set (Mergers e))
        \<and> (Actor e \<notin> set (Mergers e) \<longrightarrow>
             validateEnv e = Some (errActorNotInMergers (Actor e))))
   \<and> errBadComment c \<noteq> errActorNotInMergers a"
  by (auto simp: validateEnv_def mergeComment_def actorMatches_iff errBadComment_neq_errActor)

theorem validateEnv_spec_witness:
  "validateEnv \<lparr>GithubToken = ''t'', Owner = ''o'', Repo = ''r'', PRNumber = 7,
       Comment = ''/merge '', MergeMethod = ''merge'', Mergers = [''alice''],
       Actor = ''alice'', EnableAutoMerge = False\<rparr>
     = Some ''comment must be /merge, got /merge ''
   \<and> validateEnv \<lparr>GithubToken = ''t'', Owner = ''o'', Repo = ''r'', PRNumber = 7,
       Comment = ''/merge'', MergeMethod = ''merge'', Mergers = [],
       Actor = ''mallory'', EnableAutoMerge = False\<rparr> = None
   \<and> validateEnv \<lparr>GithubToken = ''t'', Owner = ''o'', Repo = ''r'', PRNumber = 7,
       Comment = ''/merge'', MergeMethod = ''merge'', Mergers = [''bob'', ''alice''],
       Actor = ''alice'', EnableAutoMerge = False\<rparr> = None
   \<and> validateEnv \<lparr>GithubToken = ''t'', Owner = ''o'', Repo = ''r'', PRNumber = 7,
       Comment = ''/merge'', MergeMethod = ''merge'', Mergers = [''bob'', ''alice''],
       Actor = ''Alice'', EnableAutoMerge = False\<rparr>
     = Some ''actor Alice is not in mergers list''"
  using
    validateEnv_spec [of "\<lparr>GithubToken = ''t'', Owner = ''o'', Repo = ''r'', PRNumber = 7,
       Comment = ''/merge '', MergeMethod = ''merge'', Mergers = [''alice''],
       Actor = ''alice'', EnableAutoMerge = False\<rparr>" "''x''" "''y''"]
    validateEnv_spec [of "\<lparr>GithubToken = ''t'', Owner = ''o'', Repo = ''r'', PRNumber = 7,
       Comment = ''/merge'', MergeMethod = ''merge'', Mergers = [],
       Actor = ''mallory'', EnableAutoMerge = False\<rparr>" "''x''" "''y''"]
    validateEnv_spec [of "\<lparr>GithubToken = ''t'', Owner = ''o'', Repo = ''r'', PRNumber = 7,
       Comment = ''/merge'', MergeMethod = ''merge'', Mergers = [''bob'', ''alice''],
       Actor = ''alice'', EnableAutoMerge = False\<rparr>" "''x''" "''y''"]
    validateEnv_spec [of "\<lparr>GithubToken = ''t'', Owner = ''o'', Repo = ''r'', PRNumber = 7,
       Comment = ''/merge'', MergeMethod = ''merge'', Mergers = [''bob'', ''alice''],
       Actor = ''Alice'', EnableAutoMerge = False\<rparr>" "''x''" "''y''"]
  by (simp add: errBadComment_def errActorNotInMergers_def mergeComment_def)

subsection \<open>Matching\<close>

lemma concat_only_last:
  assumes "\<And>n. 1 \<le> n \<Longrightarrow> n < k \<Longrightarrow> F n = []"
  shows "concat (map F [1..<Suc k]) = (if 1 \<le> k then F k else [])"
proof (cases "1 \<le> k")
  case True
  then have "[1..<Suc k] = [1..<k] @ [k]" by simp
  moreover have "concat (map F [1..<k]) = []" using assms by simp
  ultimately show ?thesis using True by simp
next
  case False
  then show ?thesis by simp
qed

lemma concat_only_last_rev:
  assumes "\<And>n. 1 \<le> n \<Longrightarrow> n < k \<Longrightarrow> F n = []"
  shows "concat (map F (rev [1..<Suc k])) = (if 1 \<le> k then F k else [])"
proof (cases "1 \<le> k")
  case True
  then have "rev [1..<Suc k] = k # rev [1..<k]" by simp
  moreover have "concat (map F (rev [1..<k])) = []" using assms by simp
  ultimately show ?thesis using True by simp
next
  case False
  then show ?thesis by simp
qed

lemma not_prefix_in_run:
  assumes "b \<noteq> []" "\<not> P (hd b)" "n < length (takeWhile P r)"
  shows "\<not> prefix b (drop n r)"
proof
  assume p: "prefix b (drop n r)"
  from assms(3) have n: "n < length r" using length_takeWhile_le [of P r] by simp
  then have "drop n r = r ! n # drop (Suc n) r" by (simp add: Cons_nth_drop_Suc)
  with p assms(1) have "hd b = r ! n" by (cases b) auto
  moreover have "P (r ! n)" using assms(3)
    by (metis nth_mem set_takeWhileD takeWhile_nth)
  ultimately show False using assms(2) by simp
qed

lemma runs_group_plus_lit:
  assumes "b \<noteq> []" "\<not> in_cls c (hd b)"
  shows "runs (Cat (Group (if lazy then PlusLazy c else PlusGreedy c)) (Lit b)) r =
     (let g = takeWhile (in_cls c) r in
      if g \<noteq> [] \<and> prefix b (dropWhile (in_cls c) r)
      then [(g @ b, [g], drop (length b) (dropWhile (in_cls c) r))] else [])"
proof -
  define k where "k = length (takeWhile (in_cls c) r)"
  define F where "F = (\<lambda>n. if prefix b (drop n r)
      then [(take n r @ b, [take n r], drop (length b) (drop n r))] else [])"
  have F0: "F n = []" if "1 \<le> n" "n < k" for n
  proof -
    from that(2) have "n < length (takeWhile (in_cls c) r)" by (simp only: k_def)
    then have "\<not> prefix b (drop n r)" by (rule not_prefix_in_run [of b "in_cls c", OF assms])
    then show ?thesis by (simp only: F_def if_False)
  qed
  have tk: "take k r = takeWhile (in_cls c) r"
    unfolding k_def by (rule takeWhile_eq_take [symmetric])
  have dk: "drop k r = dropWhile (in_cls c) r"
    unfolding k_def by (rule dropWhile_eq_drop [symmetric])
  have "runs (Cat (Group (if lazy then PlusLazy c else PlusGreedy c)) (Lit b)) r
      = (if lazy then concat (map F [1..<Suc k]) else concat (map F (rev [1..<Suc k])))"
  proof -
    have H: "map (\<lambda>(m2, c2, r2). (take x r @ m2, take x r # c2, r2))
               (if prefix b (drop x r) then [(b, [], drop (length b) (drop x r))] else [])
             = F x" for x
      by (simp add: F_def)
    show ?thesis
      by (simp add: H k_def map_concat comp_def rev_map)
  qed
  also have "\<dots> = (if 1 \<le> k then F k else [])"
    using concat_only_last [of k F] concat_only_last_rev [of k F] F0 by simp
  also have "\<dots> = (let g = takeWhile (in_cls c) r in
      if g \<noteq> [] \<and> prefix b (dropWhile (in_cls c) r)
      then [(g @ b, [g], drop (length b) (dropWhile (in_cls c) r))] else [])"
  proof -
    have "1 \<le> k \<longleftrightarrow> takeWhile (in_cls c) r \<noteq> []"
      unfolding k_def by (cases "takeWhile (in_cls c) r") simp_all
    then show ?thesis using tk dk by (simp add: F_def Let_def)
  qed
  finally show ?thesis .
qed

lemma runs_lit_cat:
  "runs (Cat (Lit a) R) s =
     (if prefix a s then map (\<lambda>(m2, c2, r2). (a @ m2, c2, r2)) (runs R (drop (length a) s)) else [])"
  by simp

lemma runs_plus_re:
  assumes "b \<noteq> []" "\<not> in_cls c (hd b)"
  shows "runs (plus_re lazy a c b) s =
     (let r = drop (length a) s; g = takeWhile (in_cls c) r in
      if prefix a s \<and> g \<noteq> [] \<and> prefix b (dropWhile (in_cls c) r)
      then [(a @ g @ b, [g], drop (length b) (dropWhile (in_cls c) r))] else [])"
  unfolding plus_re_def runs_lit_cat runs_group_plus_lit [OF assms]
  by (simp add: Let_def)

lemma runs_plus_re_match:
  assumes "b \<noteq> []" "\<not> in_cls c (hd b)" "g \<noteq> []" "\<forall>x\<in>set g. in_cls c x"
  shows "runs (plus_re lazy a c b) (a @ g @ b @ post) = [(a @ g @ b, [g], post)]"
proof -
  from assms(1) obtain h t where b: "b = h # t" by (cases b) auto
  with assms(2) have h: "\<not> in_cls c h" by simp
  have tw: "takeWhile (in_cls c) (g @ b @ post) = g"
    using assms(4) h by (simp add: b takeWhile_append2)
  have dw: "dropWhile (in_cls c) (g @ b @ post) = b @ post"
    using assms(4) h by (simp add: b dropWhile_append2)
  show ?thesis
    by (simp add: runs_plus_re [OF assms(1,2)] tw dw assms(3))
qed

lemma runs_plus_re_nonempty:
  assumes "b \<noteq> []" "\<not> in_cls c (hd b)" "runs (plus_re lazy a c b) s \<noteq> []"
  shows "\<exists>g post. s = a @ g @ b @ post \<and> g \<noteq> [] \<and> (\<forall>x\<in>set g. in_cls c x)"
proof -
  define r where "r = drop (length a) s"
  define g where "g = takeWhile (in_cls c) r"
  from assms(3) have p: "prefix a s" and g: "g \<noteq> []"
    and pb: "prefix b (dropWhile (in_cls c) r)"
    unfolding runs_plus_re [OF assms(1,2)] r_def g_def Let_def
    by (auto split: if_splits)
  from p have s: "s = a @ r" by (auto simp: r_def prefix_def)
  from pb obtain post where "dropWhile (in_cls c) r = b @ post" by (auto simp: prefix_def)
  then have "r = g @ b @ post"
    unfolding g_def by (metis takeWhile_dropWhile_id)
  moreover have "\<forall>x\<in>set g. in_cls c x"
    unfolding g_def by (auto dest: set_takeWhileD)
  ultimately show ?thesis using s g by blast
qed

lemma find_here:
  "runs re s = (m, cs, r) # rest \<Longrightarrow> FindStringSubmatch re s = m # cs"
  by (cases s) simp_all

lemma find_skip:
  "(\<forall>i<length pre. runs re (drop i (pre @ s)) = []) \<Longrightarrow>
   FindStringSubmatch re (pre @ s) = FindStringSubmatch re s"
proof (induction pre)
  case Nil
  then show ?case by simp
next
  case (Cons x pre)
  from Cons.prems have "runs re (drop 0 ((x # pre) @ s)) = []" by blast
  then have 0: "runs re (x # pre @ s) = []" by simp
  have "\<forall>i<length pre. runs re (drop i (pre @ s)) = []"
  proof (intro allI impI)
    fix i assume "i < length pre"
    then have "runs re (drop (Suc i) ((x # pre) @ s)) = []" using Cons.prems by auto
    then show "runs re (drop i (pre @ s)) = []" by simp
  qed
  with Cons.IH 0 show ?case by simp
qed

lemma find_nil_iff:
  "FindStringSubmatch re s = [] \<longleftrightarrow> (\<forall>i\<le>length s. runs re (drop i s) = [])"
proof (induction s)
  case Nil
  then show ?case by (auto split: list.splits)
next
  case (Cons x xs)
  have "(\<forall>i\<le>length (x # xs). runs re (drop i (x # xs)) = []) \<longleftrightarrow>
        runs re (x # xs) = [] \<and> (\<forall>i\<le>length xs. runs re (drop i xs) = [])"
    (is "?L \<longleftrightarrow> ?R")
  proof
    assume L: ?L
    then have "runs re (drop 0 (x # xs)) = []" by blast
    moreover have "\<forall>i\<le>length xs. runs re (drop i xs) = []"
    proof (intro allI impI)
      fix i assume "i \<le> length xs"
      with L have "runs re (drop (Suc i) (x # xs)) = []" by auto
      then show "runs re (drop i xs) = []" by simp
    qed
    ultimately show ?R by simp
  next
    assume R: ?R
    show ?L
    proof (intro allI impI)
      fix i assume "i \<le> length (x # xs)"
      with R show "runs re (drop i (x # xs)) = []" by (cases i) auto
    qed
  qed
  with Cons.IH show ?case by (auto split: list.splits)
qed

lemma first_match_no_earlier:
  assumes "b \<noteq> []" "\<not> in_cls c (hd b)" "first_match a c b s pre g post" "i < length pre"
  shows "runs (plus_re lazy a c b) (drop i s) = []"
proof (rule ccontr)
  assume "runs (plus_re lazy a c b) (drop i s) \<noteq> []"
  from runs_plus_re_nonempty [OF assms(1,2) this]
  obtain g' post' where d: "drop i s = a @ g' @ b @ post'" and g': "g' \<noteq> []"
    and c': "\<forall>x\<in>set g'. in_cls c x" by blast
  have "s = take i s @ a @ g' @ b @ post'" using d by (metis append_take_drop_id)
  with assms(3) g' c' have "length pre \<le> length (take i s)"
    unfolding first_match_def by blast
  with assms(4) show False by simp
qed

lemma find_first_match:
  assumes "b \<noteq> []" "\<not> in_cls c (hd b)" "first_match a c b s pre g post"
  shows "FindStringSubmatch (plus_re lazy a c b) s = [a @ g @ b, g]"
proof -
  from assms(3) have s: "s = pre @ (a @ g @ b @ post)" and g: "g \<noteq> []"
    and c: "\<forall>x\<in>set g. in_cls c x"
    unfolding first_match_def by auto
  have "\<forall>i<length pre. runs (plus_re lazy a c b) (drop i (pre @ (a @ g @ b @ post))) = []"
    using first_match_no_earlier [OF assms] s by simp
  then have "FindStringSubmatch (plus_re lazy a c b) s
      = FindStringSubmatch (plus_re lazy a c b) (a @ g @ b @ post)"
    unfolding s by (rule find_skip)
  also have "\<dots> = [a @ g @ b, g]"
    by (rule find_here) (rule runs_plus_re_match [OF assms(1,2) g c])
  finally show ?thesis .
qed

lemma find_no_match:
  assumes "b \<noteq> []" "\<not> in_cls c (hd b)" "\<not> has_match a c b s"
  shows "FindStringSubmatch (plus_re lazy a c b) s = []"
proof -
  have "runs (plus_re lazy a c b) (drop i s) = []" for i
  proof (rule ccontr)
    assume "runs (plus_re lazy a c b) (drop i s) \<noteq> []"
    from runs_plus_re_nonempty [OF assms(1,2) this]
    obtain g' post' where d: "drop i s = a @ g' @ b @ post'" and g': "g' \<noteq> []"
      and c': "\<forall>x\<in>set g'. in_cls c x" by blast
    have "s = take i s @ a @ g' @ b @ post'" using d by (metis append_take_drop_id)
    with g' c' have "has_match a c b s" unfolding has_match_def by blast
    with assms(3) show False by simp
  qed
  then show ?thesis by (simp add: find_nil_iff)
qed

lemma has_match_first:
  assumes "has_match a c b s"
  shows "\<exists>pre g post. first_match a c b s pre g post"
proof -
  define Q where "Q = (\<lambda>n. \<exists>pre g post. length pre = n \<and> s = pre @ a @ g @ b @ post
      \<and> g \<noteq> [] \<and> (\<forall>x\<in>set g. in_cls c x))"
  from assms have "\<exists>n. Q n" unfolding has_match_def Q_def by blast
  then obtain n where n: "Q n" and least: "\<And>m. Q m \<Longrightarrow> n \<le> m"
    by (metis LeastI Least_le)
  from n obtain pre g post where pre: "length pre = n" "s = pre @ a @ g @ b @ post"
      "g \<noteq> []" "\<forall>x\<in>set g. in_cls c x"
    unfolding Q_def by blast
  have "first_match a c b s pre g post"
    unfolding first_match_def
  proof (intro conjI allI impI)
    fix pre' g' post'
    assume "s = pre' @ a @ g' @ b @ post' \<and> g' \<noteq> [] \<and> (\<forall>x\<in>set g'. in_cls c x)"
    then have "Q (length pre')" unfolding Q_def by blast
    with least pre(1) show "length pre \<le> length pre'" by simp
  qed (use pre in auto)
  then show ?thesis by blast
qed

lemma first_match_has_match: "first_match a c b s pre g post \<Longrightarrow> has_match a c b s"
  unfolding first_match_def has_match_def by blast

lemma first_matchI:
  assumes "a \<noteq> []" "hd a \<notin> set pre" "g \<noteq> []" "\<forall>x\<in>set g. in_cls c x"
  shows "first_match a c b (pre @ a @ g @ b @ post) pre g post"
  unfolding first_match_def
proof (intro conjI allI impI)
  fix pre' g' post'
  assume h: "pre @ a @ g @ b @ post = pre' @ a @ g' @ b @ post' \<and> g' \<noteq> []
      \<and> (\<forall>x\<in>set g'. in_cls c x)"
  show "length pre \<le> length pre'"
  proof (rule ccontr)
    assume "\<not> length pre \<le> length pre'"
    then have lt: "length pre' < length pre" by simp
    from assms(1) obtain h t where a: "a = h # t" by (cases a) auto
    from h have "(pre @ a @ g @ b @ post) ! length pre' = (pre' @ a @ g' @ b @ post') ! length pre'"
      by simp
    then have "pre ! length pre' = h" using lt by (simp add: nth_append a)
    with lt have "h \<in> set pre" by (metis nth_mem)
    with assms(2) a show False by simp
  qed
qed (use assms in auto)

subsection \<open>splitReleaseNote\<close>

lemma releaseNoteRegexp_plus_re:
  "releaseNoteRegexp = plus_re True fenceOpen AnyCharNotNL fenceClose"
  by (simp add: releaseNoteRegexp_def plus_re_def fenceOpen_def fenceClose_def)

lemma fenceClose_ok: "fenceClose \<noteq> []" "\<not> in_cls AnyCharNotNL (hd fenceClose)"
  by (simp_all add: fenceClose_def)

lemma find_releaseNoteBlock:
  "releaseNoteBlock body pre g post \<Longrightarrow>
   FindStringSubmatch releaseNoteRegexp body = [fenceOpen @ g @ fenceClose, g]"
  unfolding releaseNoteBlock_def releaseNoteRegexp_plus_re
  by (rule find_first_match [OF fenceClose_ok])

lemma find_no_releaseNoteBlock:
  "\<not> hasReleaseNoteBlock body \<Longrightarrow> FindStringSubmatch releaseNoteRegexp body = []"
  unfolding hasReleaseNoteBlock_def releaseNoteRegexp_plus_re
  by (rule find_no_match [OF fenceClose_ok])

lemma splitReleaseNote_block:
  "releaseNoteBlock body pre g post \<Longrightarrow>
   splitReleaseNote body =
     (if TrimSpace g \<noteq> [] then (ReplaceAllEmpty body (fenceOpen @ g @ fenceClose), TrimSpace g)
      else (body, ''NONE''))"
  by (simp add: splitReleaseNote_def find_releaseNoteBlock Let_def)

lemma splitReleaseNote_no_block:
  "\<not> hasReleaseNoteBlock body \<Longrightarrow> splitReleaseNote body = (body, ''NONE'')"
  by (simp add: splitReleaseNote_def find_no_releaseNoteBlock)

lemma ReplaceAllEmpty_skip:
  "old \<noteq> [] \<Longrightarrow> (\<forall>i<length pre. \<not> prefix old (drop i (pre @ s))) \<Longrightarrow>
   ReplaceAllEmpty (pre @ s) old = pre @ ReplaceAllEmpty s old"
proof (induction pre)
  case Nil
  then show ?case by simp
next
  case (Cons x pre)
  from Cons.prems(2) have "\<not> prefix old (drop 0 ((x # pre) @ s))" by blast
  then have 0: "\<not> prefix old (x # pre @ s)" by simp
  have "\<forall>i<length pre. \<not> prefix old (drop i (pre @ s))"
  proof (intro allI impI)
    fix i assume "i < length pre"
    then have "\<not> prefix old (drop (Suc i) ((x # pre) @ s))" using Cons.prems(2) by auto
    then show "\<not> prefix old (drop i (pre @ s))" by simp
  qed
  with Cons.IH Cons.prems(1) 0 show ?case by simp
qed

lemma ReplaceAllEmpty_here:
  "old \<noteq> [] \<Longrightarrow> ReplaceAllEmpty (old @ s) old = ReplaceAllEmpty s old"
  by (cases old) simp_all

lemma ReplaceAllEmpty_no_hd:
  "old \<noteq> [] \<Longrightarrow> hd old \<notin> set s \<Longrightarrow> ReplaceAllEmpty s old = s"
proof (induction s)
  case Nil
  then show ?case by simp
next
  case (Cons c cs)
  then have "\<not> prefix old (c # cs)" by (cases old) auto
  with Cons show ?case by simp
qed

lemma releaseNoteBlock_no_earlier:
  assumes "releaseNoteBlock body pre g post" "i < length pre"
  shows "\<not> prefix (fenceOpen @ g @ fenceClose) (drop i body)"
proof
  assume "prefix (fenceOpen @ g @ fenceClose) (drop i body)"
  then obtain rest where "drop i body = (fenceOpen @ g @ fenceClose) @ rest"
    by (auto simp: prefix_def)
  then have "body = take i body @ fenceOpen @ g @ fenceClose @ rest"
    by (metis append_take_drop_id append.assoc)
  moreover from assms(1) have "g \<noteq> []" "\<forall>x\<in>set g. in_cls AnyCharNotNL x"
    unfolding releaseNoteBlock_def first_match_def by auto
  ultimately have "length pre \<le> length (take i body)"
    using assms(1) unfolding releaseNoteBlock_def first_match_def by blast
  with assms(2) show False by simp
qed

lemma ReplaceAllEmpty_block:
  assumes "releaseNoteBlock body pre g post"
  shows "ReplaceAllEmpty body (fenceOpen @ g @ fenceClose)
         = pre @ ReplaceAllEmpty post (fenceOpen @ g @ fenceClose)"
proof -
  let ?m = "fenceOpen @ g @ fenceClose"
  have m: "?m \<noteq> []" by (simp add: fenceOpen_def)
  from assms have body: "body = pre @ (?m @ post)"
    unfolding releaseNoteBlock_def first_match_def by simp
  have "\<forall>i<length pre. \<not> prefix ?m (drop i (pre @ (?m @ post)))"
    using releaseNoteBlock_no_earlier [OF assms] body by simp
  then have "ReplaceAllEmpty (pre @ (?m @ post)) ?m = pre @ ReplaceAllEmpty (?m @ post) ?m"
    by (rule ReplaceAllEmpty_skip [OF m])
  also have "\<dots> = pre @ ReplaceAllEmpty post ?m"
    using ReplaceAllEmpty_here [OF m] by simp
  finally show ?thesis using body by simp
qed

lemma no_backtick_no_block:
  assumes "CHR 0x60 \<notin> set body"
  shows "\<not> hasReleaseNoteBlock body"
proof
  assume "hasReleaseNoteBlock body"
  then obtain pre g post where "body = pre @ fenceOpen @ g @ fenceClose @ post"
    unfolding hasReleaseNoteBlock_def has_match_def by blast
  then have "CHR 0x60 \<in> set body" by (simp add: fenceOpen_def)
  with assms show False by simp
qed

lemma releaseNoteBlockI:
  assumes "CHR 0x60 \<notin> set pre" "g \<noteq> []" "CHR 0x0A \<notin> set g"
  shows "releaseNoteBlock (pre @ fenceOpen @ g @ fenceClose @ post) pre g post"
  unfolding releaseNoteBlock_def
proof (rule first_matchI)
  show "fenceOpen \<noteq> []" by (simp add: fenceOpen_def)
  show "hd fenceOpen \<notin> set pre" using assms(1) by (simp add: fenceOpen_def)
  show "g \<noteq> []" by (rule assms(2))
  show "\<forall>x\<in>set g. in_cls AnyCharNotNL x" using assms(3) by auto
qed

lemma hasReleaseNoteBlock_first:
  "hasReleaseNoteBlock body \<Longrightarrow> \<exists>pre g post. releaseNoteBlock body pre g post"
  unfolding hasReleaseNoteBlock_def releaseNoteBlock_def by (rule has_match_first)

text \<open>
  C2 (as amended). When the leftmost release-note block of the body has a content \<open>g\<close>
  whose trimmed text is not empty, \<open>splitReleaseNote\<close> returns the trimmed content as the
  release note, and as the description the body with the matched text
  \<open>fenceOpen @ g @ fenceClose\<close> removed at its first occurrence and at every later
  occurrence that does not overlap an earlier one: the text before the block, then the
  text after it with every occurrence removed.
\<close>

theorem splitReleaseNote_removes_every_occurrence:
  assumes "releaseNoteBlock body pre g post" and "TrimSpace g \<noteq> []"
  shows "splitReleaseNote body
         = (pre @ ReplaceAllEmpty post (fenceOpen @ g @ fenceClose), TrimSpace g)"
  using assms by (simp add: splitReleaseNote_block ReplaceAllEmpty_block)

lemma trim_simps:
  "TrimSpace s = TrimRight (TrimLeft s)"
  "TrimLeft s = stripLeading spaceRunes s"
  "TrimRight s = rev (stripLeading (map rev spaceRunes) (rev s))"
  by (simp_all add: TrimSpace_def TrimLeft_def TrimRight_def)

theorem splitReleaseNote_removes_every_occurrence_witness:
  "releaseNoteBlock
     ''fix\<newline>```release-note\<newline> note \<newline>```x```release-note\<newline> note \<newline>```y''
     ''fix\<newline>'' '' note '' ''x```release-note\<newline> note \<newline>```y''
   \<and> TrimSpace '' note '' \<noteq> []
   \<and> splitReleaseNote
       ''fix\<newline>```release-note\<newline> note \<newline>```x```release-note\<newline> note \<newline>```y''
     = (''fix\<newline>xy'', ''note'')"
proof -
  have b: "releaseNoteBlock
     (''fix\<newline>'' @ fenceOpen @ '' note '' @ fenceClose @ ''x```release-note\<newline> note \<newline>```y'')
     ''fix\<newline>'' '' note '' ''x```release-note\<newline> note \<newline>```y''"
    by (rule releaseNoteBlockI) simp_all
  have t: "TrimSpace '' note '' = ''note''"
    by (simp add: trim_simps spaceRunes_def asciiSpace_def)
  from splitReleaseNote_removes_every_occurrence [OF b] t b
  show ?thesis by (simp add: fenceOpen_def fenceClose_def)
qed

text \<open>
  The claim C2 as stated, removal at the first occurrence only, fails for a body in which
  the block occurs twice: the specification's reading keeps the second occurrence, the
  program removes it.
\<close>

theorem splitReleaseNote_first_only_counterexample:
  "releaseNoteBlock ''```release-note\<newline>a\<newline>```x```release-note\<newline>a\<newline>```''
     [] ''a'' ''x```release-note\<newline>a\<newline>```''
   \<and> TrimSpace ''a'' = ''a''
   \<and> ReplaceFirstEmpty ''```release-note\<newline>a\<newline>```x```release-note\<newline>a\<newline>```''
        ''```release-note\<newline>a\<newline>```'' = ''x```release-note\<newline>a\<newline>```''
   \<and> splitReleaseNote ''```release-note\<newline>a\<newline>```x```release-note\<newline>a\<newline>```''
       = (''x'', ''a'')"
proof -
  have b: "releaseNoteBlock
     ([] @ fenceOpen @ ''a'' @ fenceClose @ ''x```release-note\<newline>a\<newline>```'')
     [] ''a'' ''x```release-note\<newline>a\<newline>```''"
    by (rule releaseNoteBlockI) simp_all
  have t: "TrimSpace ''a'' = ''a''"
    by (simp add: trim_simps spaceRunes_def asciiSpace_def)
  have s: "splitReleaseNote ''```release-note\<newline>a\<newline>```x```release-note\<newline>a\<newline>```''
       = (''x'', ''a'')"
    using b t by (simp add: splitReleaseNote_block fenceOpen_def fenceClose_def)
  show ?thesis using b t s by (simp add: fenceOpen_def fenceClose_def)
qed

lemma first_match_by_runs:
  assumes "b \<noteq> []" "\<not> in_cls c (hd b)" "g \<noteq> []" "\<forall>x\<in>set g. in_cls c x"
    and "\<forall>i<length pre. runs (plus_re lazy a c b) (drop i (pre @ a @ g @ b @ post)) = []"
  shows "first_match a c b (pre @ a @ g @ b @ post) pre g post"
  unfolding first_match_def
proof (intro conjI allI impI)
  fix pre' g' post'
  assume h: "pre @ a @ g @ b @ post = pre' @ a @ g' @ b @ post' \<and> g' \<noteq> []
      \<and> (\<forall>x\<in>set g'. in_cls c x)"
  show "length pre \<le> length pre'"
  proof (rule ccontr)
    assume "\<not> length pre \<le> length pre'"
    then have lt: "length pre' < length pre" by simp
    with assms(5) have "runs (plus_re lazy a c b) (drop (length pre') (pre @ a @ g @ b @ post)) = []"
      by blast
    moreover have "drop (length pre') (pre @ a @ g @ b @ post) = a @ g' @ b @ post'"
      using h by simp
    moreover have "runs (plus_re lazy a c b) (a @ g' @ b @ post') = [(a @ g' @ b, [g'], post')]"
      using h by (intro runs_plus_re_match [OF assms(1,2)]) auto
    ultimately show False by simp
  qed
qed (use assms in auto)

lemma releaseNoteBlock_by_runs:
  assumes "g \<noteq> []" "CHR 0x0A \<notin> set g"
    and "\<forall>i<length pre. runs releaseNoteRegexp (drop i (pre @ fenceOpen @ g @ fenceClose @ post)) = []"
  shows "releaseNoteBlock (pre @ fenceOpen @ g @ fenceClose @ post) pre g post"
  unfolding releaseNoteBlock_def
proof (rule first_match_by_runs [OF fenceClose_ok])
  show "g \<noteq> []" by (rule assms(1))
  show "\<forall>x\<in>set g. in_cls AnyCharNotNL x" using assms(2) by auto
  show "\<forall>i<length pre. runs (plus_re True fenceOpen AnyCharNotNL fenceClose)
      (drop i (pre @ fenceOpen @ g @ fenceClose @ post)) = []"
    using assms(3) by (simp add: releaseNoteRegexp_plus_re)
qed



lemma not_extractable_split:
  assumes "\<not> extractable d"
  shows "splitReleaseNote d = (d, ''NONE'')"
proof (cases "hasReleaseNoteBlock d")
  case False
  then show ?thesis by (rule splitReleaseNote_no_block)
next
  case True
  then obtain pre g post where b: "releaseNoteBlock d pre g post"
    using hasReleaseNoteBlock_first by blast
  with assms have "TrimSpace g = []" unfolding extractable_def by blast
  with b show ?thesis by (simp add: splitReleaseNote_block)
qed

lemma length_ReplaceAllEmpty: "length (ReplaceAllEmpty s old) \<le> length s"
proof (induction s old rule: ReplaceAllEmpty.induct)
  case (1 old)
  then show ?case by simp
next
  case (2 c cs old)
  show ?case
  proof (cases "old \<noteq> [] \<and> prefix old (c # cs)")
    case True
    with 2(1) have "length (ReplaceAllEmpty (drop (length old) (c # cs)) old)
        \<le> length (drop (length old) (c # cs))" by simp
    with True show ?thesis by simp
  next
    case False
    with 2(2) show ?thesis by auto
  qed
qed

lemma extractable_split:
  assumes "extractable d"
  shows "fst (splitReleaseNote d) \<noteq> d"
proof -
  from assms obtain pre g post where b: "releaseNoteBlock d pre g post" and t: "TrimSpace g \<noteq> []"
    unfolding extractable_def by blast
  let ?m = "fenceOpen @ g @ fenceClose"
  from b have d: "d = pre @ ?m @ post"
    unfolding releaseNoteBlock_def first_match_def by simp
  have "fst (splitReleaseNote d) = pre @ ReplaceAllEmpty post ?m"
    using b t by (simp add: splitReleaseNote_block ReplaceAllEmpty_block)
  moreover have "length (pre @ ReplaceAllEmpty post ?m) < length (pre @ ?m @ post)"
    using length_ReplaceAllEmpty [of post ?m] by (simp add: fenceOpen_def)
  ultimately show ?thesis using d by auto
qed

lemma ReplaceAllEmpty_no_occurrence:
  "\<not> sublist old s \<Longrightarrow> ReplaceAllEmpty s old = s"
proof (induction s)
  case Nil
  then show ?case by simp
next
  case (Cons c cs)
  then have "\<not> prefix old (c # cs)" and "\<not> sublist old cs"
    by (auto simp: sublist_Cons_right)
  with Cons.IH show ?case by simp
qed

lemma no_fenceOpen_no_block:
  assumes "\<not> sublist fenceOpen s"
  shows "\<not> hasReleaseNoteBlock s"
proof
  assume "hasReleaseNoteBlock s"
  then obtain pre g post where "s = pre @ fenceOpen @ (g @ fenceClose @ post)"
    unfolding hasReleaseNoteBlock_def has_match_def by auto
  then have "sublist fenceOpen s" unfolding sublist_def by blast
  with assms show False by simp
qed

lemma splitReleaseNote_only_fence:
  assumes "releaseNoteBlock body pre g post" "TrimSpace g \<noteq> []"
    "\<not> sublist fenceOpen (pre @ post)"
  shows "fst (splitReleaseNote body) = pre @ post" and "\<not> extractable (pre @ post)"
proof -
  let ?m = "fenceOpen @ g @ fenceClose"
  have "\<not> sublist ?m post"
  proof
    assume "sublist ?m post"
    then obtain ps ss where "post = ps @ ?m @ ss" unfolding sublist_def by blast
    then have "pre @ post = (pre @ ps) @ fenceOpen @ (g @ fenceClose @ ss)" by simp
    then have "sublist fenceOpen (pre @ post)" unfolding sublist_def by blast
    with assms(3) show False by simp
  qed
  then have "ReplaceAllEmpty post ?m = post" by (rule ReplaceAllEmpty_no_occurrence)
  with assms(1,2) show "fst (splitReleaseNote body) = pre @ post"
    by (simp add: splitReleaseNote_block ReplaceAllEmpty_block)
  from no_fenceOpen_no_block [OF assms(3)] show "\<not> extractable (pre @ post)"
    unfolding extractable_def
    using first_match_has_match
    by (auto simp: releaseNoteBlock_def hasReleaseNoteBlock_def)
qed







text \<open>
  C4. A block whose content has two lines is not found: for a body that is the opening
  fence, the lines \<open>line one\<close> and \<open>line two\<close> and the closing fence, the program returns
  the body unchanged and \<open>NONE\<close>, since \<open>.\<close> does not match a newline. (A block with one
  line of content is found, as the property C2 states.)
\<close>

theorem splitReleaseNote_two_lines:
  "splitReleaseNote ''```release-note\<newline>line one\<newline>line two\<newline>```''
   = (''```release-note\<newline>line one\<newline>line two\<newline>```'', ''NONE'')"
  by (simp add: splitReleaseNote_def releaseNoteRegexp_def)

text \<open>
  C8. The release note returned by \<open>splitReleaseNote\<close> is never the empty string: it is
  \<open>NONE\<close>, or the trimmed content, not empty, of the leftmost release-note block.
\<close>

theorem releaseNote_never_empty:
  "snd (splitReleaseNote body) \<noteq> []
   \<and> (snd (splitReleaseNote body) = ''NONE''
      \<or> (\<exists>pre g post. releaseNoteBlock body pre g post
            \<and> snd (splitReleaseNote body) = TrimSpace g))"
proof (cases "hasReleaseNoteBlock body")
  case False
  then show ?thesis by (simp add: splitReleaseNote_no_block)
next
  case True
  then obtain pre g post where b: "releaseNoteBlock body pre g post"
    using hasReleaseNoteBlock_first by blast
  show ?thesis
  proof (cases "TrimSpace g = []")
    case True
    with b show ?thesis by (simp add: splitReleaseNote_block)
  next
    case False
    with b have "snd (splitReleaseNote body) = TrimSpace g"
      by (simp add: splitReleaseNote_block)
    with False b show ?thesis by auto
  qed
qed

theorem releaseNote_never_empty_witness:
  "snd (splitReleaseNote ''fix\<newline>```release-note\<newline> note \<newline>```'') = ''note''
   \<and> snd (splitReleaseNote ''```release-note\<newline>\<newline>```'') = ''NONE''"
proof -
  have 1: "snd (splitReleaseNote ''fix\<newline>```release-note\<newline> note \<newline>```'') = ''note''"
    by (simp add: splitReleaseNote_def releaseNoteRegexp_def trim_simps spaceRunes_def asciiSpace_def)
  have 2: "snd (splitReleaseNote ''```release-note\<newline>\<newline>```'') = ''NONE''"
    by (simp add: splitReleaseNote_def releaseNoteRegexp_def)
  from releaseNote_never_empty [of "''fix\<newline>```release-note\<newline> note \<newline>```''"]
       releaseNote_never_empty [of "''```release-note\<newline>\<newline>```''"]
  show ?thesis using 1 2 by simp
qed

text \<open>
  C7 (as amended). A second extraction, from the description of a first one, returns
  that description unchanged with \<open>NONE\<close> exactly when the description holds no
  extractable block. This is so for every body in which the first extraction found no
  extractable block (the description is the body), and for every body in which the text
  before the extracted block and the text after it, joined, do not contain the opening
  fence line: inline code and other fences do not matter.
\<close>

theorem second_pass_NONE:
  "(splitReleaseNote (fst (splitReleaseNote body)) = (fst (splitReleaseNote body), ''NONE'')
      \<longleftrightarrow> \<not> extractable (fst (splitReleaseNote body)))
   \<and> (\<not> extractable body \<longrightarrow> splitReleaseNote (fst (splitReleaseNote body)) = (body, ''NONE''))
   \<and> (releaseNoteBlock body pre g post \<and> TrimSpace g \<noteq> [] \<and> \<not> sublist fenceOpen (pre @ post)
        \<longrightarrow> splitReleaseNote body = (pre @ post, TrimSpace g)
            \<and> splitReleaseNote (fst (splitReleaseNote body)) = (pre @ post, ''NONE''))"
proof (intro conjI impI)
  show "splitReleaseNote (fst (splitReleaseNote body)) = (fst (splitReleaseNote body), ''NONE'')
      \<longleftrightarrow> \<not> extractable (fst (splitReleaseNote body))"
    using not_extractable_split [of "fst (splitReleaseNote body)"]
      extractable_split [of "fst (splitReleaseNote body)"]
    by (metis fst_conv)
next
  assume "\<not> extractable body"
  then have "splitReleaseNote body = (body, ''NONE'')" by (rule not_extractable_split)
  then show "splitReleaseNote (fst (splitReleaseNote body)) = (body, ''NONE'')" by simp
next
  assume a: "releaseNoteBlock body pre g post \<and> TrimSpace g \<noteq> [] \<and> \<not> sublist fenceOpen (pre @ post)"
  then have 1: "fst (splitReleaseNote body) = pre @ post" and 2: "\<not> extractable (pre @ post)"
    using splitReleaseNote_only_fence [of body pre g post] by simp_all
  from a have "snd (splitReleaseNote body) = TrimSpace g"
    using splitReleaseNote_block [of body pre g post] by simp
  with 1 show "splitReleaseNote body = (pre @ post, TrimSpace g)"
    by (metis prod.collapse)
  from 1 not_extractable_split [OF 2]
  show "splitReleaseNote (fst (splitReleaseNote body)) = (pre @ post, ''NONE'')" by simp
qed

theorem second_pass_NONE_witness:
  "\<not> extractable ''just a description''
   \<and> splitReleaseNote (fst (splitReleaseNote ''just a description''))
       = (''just a description'', ''NONE'')
   \<and> releaseNoteBlock ''use `foo`\<newline>```release-note\<newline>fixed the thing\<newline>```\<newline>more `bar`''
        ''use `foo`\<newline>'' ''fixed the thing'' ''\<newline>more `bar`''
   \<and> TrimSpace ''fixed the thing'' \<noteq> []
   \<and> \<not> sublist fenceOpen (''use `foo`\<newline>'' @ ''\<newline>more `bar`'')
   \<and> splitReleaseNote ''use `foo`\<newline>```release-note\<newline>fixed the thing\<newline>```\<newline>more `bar`''
       = (''use `foo`\<newline>\<newline>more `bar`'', ''fixed the thing'')
   \<and> splitReleaseNote
        (fst (splitReleaseNote ''use `foo`\<newline>```release-note\<newline>fixed the thing\<newline>```\<newline>more `bar`''))
       = (''use `foo`\<newline>\<newline>more `bar`'', ''NONE'')
   \<and> \<not> extractable
        (fst (splitReleaseNote ''use `foo`\<newline>```release-note\<newline>fixed the thing\<newline>```\<newline>more `bar`''))"
proof -
  let ?b = "''use `foo`\<newline>```release-note\<newline>fixed the thing\<newline>```\<newline>more `bar`''"
  have "\<not> hasReleaseNoteBlock ''just a description''"
    by (rule no_backtick_no_block) simp
  then have n: "\<not> extractable ''just a description''"
    unfolding extractable_def hasReleaseNoteBlock_def releaseNoteBlock_def
    using first_match_has_match by blast
  have "releaseNoteBlock (''use `foo`\<newline>'' @ fenceOpen @ ''fixed the thing'' @ fenceClose @ ''\<newline>more `bar`'')
        ''use `foo`\<newline>'' ''fixed the thing'' ''\<newline>more `bar`''"
    by (rule releaseNoteBlock_by_runs)
       (simp_all add: All_less_Suc releaseNoteRegexp_def fenceOpen_def fenceClose_def)
  then have b: "releaseNoteBlock ?b ''use `foo`\<newline>'' ''fixed the thing'' ''\<newline>more `bar`''"
    by (simp add: fenceOpen_def fenceClose_def)
  have t: "TrimSpace ''fixed the thing'' = ''fixed the thing''"
    by (simp add: trim_simps spaceRunes_def asciiSpace_def)
  have s: "\<not> sublist fenceOpen (''use `foo`\<newline>'' @ ''\<newline>more `bar`'')"
    by (simp add: sublist_Cons_right fenceOpen_def)
  from second_pass_NONE [of "''just a description''" "[]" "[]" "[]"] n
  have 1: "splitReleaseNote (fst (splitReleaseNote ''just a description''))
       = (''just a description'', ''NONE'')"
    by simp
  from second_pass_NONE [of ?b "''use `foo`\<newline>''" "''fixed the thing''" "''\<newline>more `bar`''"] b t s
  have 2: "splitReleaseNote ?b = (''use `foo`\<newline>\<newline>more `bar`'', ''fixed the thing'')"
    and 3: "splitReleaseNote (fst (splitReleaseNote ?b)) = (''use `foo`\<newline>\<newline>more `bar`'', ''NONE'')"
    and 4: "\<not> extractable (fst (splitReleaseNote ?b))"
    by auto
  show ?thesis using n b t s 1 2 3 4 by simp
qed

text \<open>
  The claim C7 as stated fails for a body with two blocks of different content: the
  second extraction returns the content of the second block.
\<close>

theorem second_pass_counterexample:
  "splitReleaseNote ''```release-note\<newline>a\<newline>```\<newline>```release-note\<newline>b\<newline>```''
     = (''\<newline>```release-note\<newline>b\<newline>```'', ''a'')
   \<and> splitReleaseNote
        (fst (splitReleaseNote ''```release-note\<newline>a\<newline>```\<newline>```release-note\<newline>b\<newline>```''))
     = (''\<newline>'', ''b'')"
  by (simp add: splitReleaseNote_def releaseNoteRegexp_def trim_simps spaceRunes_def asciiSpace_def)

subsection \<open>errMsg\<close>

lemma needApproveRegexp_plus_re:
  "needApproveRegexp = plus_re False atLeast_lit Digit approving_lit"
  by (simp add: needApproveRegexp_def plus_re_def atLeast_lit_def approving_lit_def)

lemma approving_lit_ok: "approving_lit \<noteq> []" "\<not> in_cls Digit (hd approving_lit)"
  by (simp_all add: approving_lit_def)

lemma errMsg_match:
  assumes "needApproveMatch msg pre n post"
  shows "errMsg (Some msg) = ''Need '' @ n @ '' approving review''"
proof -
  from assms have "FindStringSubmatch needApproveRegexp msg = [atLeast_lit @ n @ approving_lit, n]"
    unfolding needApproveMatch_def needApproveRegexp_plus_re
    by (rule find_first_match [OF approving_lit_ok])
  then show ?thesis by (simp add: errMsg_def)
qed

lemma errMsg_no_match:
  assumes "\<not> hasNeedApprove msg"
  shows "errMsg (Some msg) = msg"
proof -
  from assms have "FindStringSubmatch needApproveRegexp msg = []"
    unfolding hasNeedApprove_def needApproveRegexp_plus_re
    by (rule find_no_match [OF approving_lit_ok])
  then show ?thesis by (simp add: errMsg_def)
qed

lemma no_A_no_needApprove:
  assumes "CHR ''A'' \<notin> set msg"
  shows "\<not> hasNeedApprove msg"
proof
  assume "hasNeedApprove msg"
  then obtain pre g post where "msg = pre @ atLeast_lit @ g @ approving_lit @ post"
    unfolding hasNeedApprove_def has_match_def by blast
  then have "CHR ''A'' \<in> set msg" by (simp add: atLeast_lit_def)
  with assms show False by simp
qed

text \<open>
  C6 (as amended). \<open>errMsg\<close> of no error is \<open>Succeeded!\<close>. When the message contains
  \<open>At least N approving review is required by reviewers with write access\<close>, with a capital
  \<open>A\<close> and \<open>N\<close> one or more digits, the result is \<open>Need N approving review\<close> for the \<open>N\<close> of
  the leftmost occurrence. When the message contains no such text, the result is the
  message unchanged.
\<close>

theorem errMsg_spec:
  "errMsg None = ''Succeeded!''
   \<and> (needApproveMatch msg pre n post \<longrightarrow> errMsg (Some msg) = ''Need '' @ n @ '' approving review'')
   \<and> (\<not> hasNeedApprove msg \<longrightarrow> errMsg (Some msg) = msg)"
  by (auto simp: errMsg_match errMsg_no_match) (simp add: errMsg_def)

theorem errMsg_spec_witness:
  "needApproveMatch
     ''failed to merge pull request: PUT https://api.github.com/repos/o/r/pulls/7/merge: 405 At least 12 approving review is required by reviewers with write access. []''
     ''failed to merge pull request: PUT https://api.github.com/repos/o/r/pulls/7/merge: 405 ''
     ''12'' ''. []''
   \<and> errMsg (Some ''failed to merge pull request: PUT https://api.github.com/repos/o/r/pulls/7/merge: 405 At least 12 approving review is required by reviewers with write access. []'')
       = ''Need 12 approving review''
   \<and> \<not> hasNeedApprove ''failed to get pull request: 404 Not Found''
   \<and> errMsg (Some ''failed to get pull request: 404 Not Found'')
       = ''failed to get pull request: 404 Not Found''"
proof -
  have "first_match atLeast_lit Digit approving_lit
     (''failed to merge pull request: PUT https://api.github.com/repos/o/r/pulls/7/merge: 405 ''
        @ atLeast_lit @ ''12'' @ approving_lit @ ''. []'')
     ''failed to merge pull request: PUT https://api.github.com/repos/o/r/pulls/7/merge: 405 ''
     ''12'' ''. []''"
    by (rule first_matchI) (simp_all add: atLeast_lit_def)
  then have m: "needApproveMatch
     ''failed to merge pull request: PUT https://api.github.com/repos/o/r/pulls/7/merge: 405 At least 12 approving review is required by reviewers with write access. []''
     ''failed to merge pull request: PUT https://api.github.com/repos/o/r/pulls/7/merge: 405 ''
     ''12'' ''. []''"
    by (simp add: needApproveMatch_def atLeast_lit_def approving_lit_def)
  have n: "\<not> hasNeedApprove ''failed to get pull request: 404 Not Found''"
    by (rule no_A_no_needApprove) simp
  from errMsg_spec [of
      "''failed to merge pull request: PUT https://api.github.com/repos/o/r/pulls/7/merge: 405 At least 12 approving review is required by reviewers with write access. []''"
      "''failed to merge pull request: PUT https://api.github.com/repos/o/r/pulls/7/merge: 405 ''"
      "''12''" "''. []''"]
    errMsg_spec [of "''failed to get pull request: 404 Not Found''" "[]" "[]" "[]"] m n
  show ?thesis by simp
qed

text \<open>
  The claim C6 as stated, with the pattern in lower case, fails: the message below has
  the stated form and is returned unchanged.
\<close>

theorem errMsg_lowercase_counterexample:
  "errMsg (Some ''at least 2 approving review is required by reviewers with write access'')
   = ''at least 2 approving review is required by reviewers with write access''"
  by (simp add: errMsg_def needApproveRegexp_def)

subsection \<open>The commit body\<close>

lemma bodyTpl_parsed:
  "bodyTpl = Some
    [NIf (PField ''Message'') [NText ''\<newline>'', NPrint (PField ''Message'')],
     NText ''\<newline>'',
     NIf (PField ''Labels'')
       [NText ''\<newline>Labels:'',
        NRange (PField ''Labels'') [NText ''\<newline>  * '', NPrint PDot]],
     NText ''```release-note\<newline>* '', NPrint (PField ''ReleaseNote''), NText ''\<newline>```'']"
  by code_simp

lemma concatOpts_Some:
  "concatOpts (map (\<lambda>x. Some (f x)) xs) = Some (concat (map f xs))"
  by (induction xs) simp_all

lemma bullet_eq:
  "(\<lambda>x. CHR 0x0A # CHR 0x20 # CHR 0x20 # CHR ''*'' # CHR 0x20 # x) = (@) ''\<newline>  * ''"
  by (simp add: fun_eq_iff)

lemma Execute_bodyTpl:
  "bodyTpl = Some t \<Longrightarrow>
   Execute t (VStruct b) =
     Some ((if Message b \<noteq> [] then ''\<newline>'' @ Message b else [])
           @ ''\<newline>''
           @ (if Labels b \<noteq> [] then ''\<newline>Labels:'' @ concat (map (\<lambda>l. ''\<newline>  * '' @ l) (Labels b))
              else [])
           @ ''```release-note\<newline>* '' @ ReleaseNote b @ ''\<newline>```'')"
  by (auto simp: bodyTpl_parsed Execute_def concatOpts_Some bullet_eq)

lemma generateCommitBody_render:
  "generateCommitBody pr =
     (let b = newCommitBody pr in
      Inr ((if Message b \<noteq> [] then ''\<newline>'' @ Message b else [])
           @ ''\<newline>''
           @ (if Labels b \<noteq> [] then ''\<newline>Labels:'' @ concat (map (\<lambda>l. ''\<newline>  * '' @ l) (Labels b))
              else [])
           @ ''```release-note\<newline>* '' @ ReleaseNote b @ ''\<newline>```''))"
proof -
  obtain t where t: "bodyTpl = Some t" by (simp add: bodyTpl_parsed)
  show ?thesis
    unfolding generateCommitBody_def Let_def t
    by (simp add: Execute_bodyTpl [OF t])
qed

lemma newCommitBody_simple:
  "newCommitBody \<lparr>Number = Some 7, Title = Some ''Fix crash'', Body = None,
      PullRequest.Labels = [\<lparr>Name = Some ''bug''\<rparr>, \<lparr>Name = Some ''P1''\<rparr>]\<rparr>
   = \<lparr>Labels = [''bug'', ''P1''], Message = [], ReleaseNote = ''NONE''\<rparr>"
  by (simp add: newCommitBody_def GetName_def GetBody_def splitReleaseNote_def releaseNoteRegexp_def)

text \<open>
  C5. The commit body of a pull request with an empty description and the labels \<open>bug\<close>
  and \<open>P1\<close>: the description paragraph is left out, the \<open>Labels:\<close> heading and one bullet
  for each label follow, and the release-note block with the bullet \<open>* NONE\<close> ends the
  body. But the opening fence does not start a line: it follows the last label on the
  same line, since the trim marker of the last \<open>end\<close> removes the newlines before it.
\<close>

theorem generateCommitBody_fence_after_label:
  "generateCommitBody \<lparr>Number = Some 7, Title = Some ''Fix crash'', Body = None,
      PullRequest.Labels = [\<lparr>Name = Some ''bug''\<rparr>, \<lparr>Name = Some ''P1''\<rparr>]\<rparr>
   = Inr ''\<newline>\<newline>Labels:\<newline>  * bug\<newline>  * P1```release-note\<newline>* NONE\<newline>```''"
  by (simp add: generateCommitBody_render newCommitBody_simple)

text \<open>
  C10. The lines of the commit body of a pull request with the labels \<open>bug\<close> and \<open>P1\<close>,
  in this order. The labels come in the order of the pull request, each after two
  spaces and \<open>* \<close>; the line of the last label does not end with the label, it goes on
  with the opening fence of the release-note block.
\<close>

theorem generateCommitBody_label_lines:
  "map_sum id (splitLines [])
     (generateCommitBody \<lparr>Number = Some 7, Title = Some ''Fix crash'', Body = None,
        PullRequest.Labels = [\<lparr>Name = Some ''bug''\<rparr>, \<lparr>Name = Some ''P1''\<rparr>]\<rparr>)
   = Inr ['''', '''', ''Labels:'', ''  * bug'', ''  * P1```release-note'', ''* NONE'', ''```'']"
  by (simp add: generateCommitBody_render newCommitBody_simple)


subsection \<open>main\<close>

lemma commentsOf_append: "commentsOf (xs @ ys) = commentsOf xs @ commentsOf ys"
  by (induction xs rule: commentsOf.induct) simp_all

lemma sendMsg_comments:
  "sendMsg gh owner repo n msg w = (serr, w') \<Longrightarrow>
   commentsOf (calls w') = commentsOf (calls w) @ [msg]"
  by (auto simp: sendMsg_def did_def commentsOf_append Let_def split: option.splits)

lemma merge_comments:
  "merge gh owner repo n method auto w = (merr, w') \<Longrightarrow>
   commentsOf (calls w') = commentsOf (calls w)"
  by (auto simp: merge_def did_def commentsOf_append Let_def
      split: option.splits sum.splits if_splits)

lemma Printf_calls: "calls (Printf s w) = calls w"
  by (simp add: Printf_def)

text \<open>
  C9. After the inputs are loaded, a run that fails (the comment is not the trigger, the
  actor is not a merger, the pull request cannot be fetched, the merge is refused) does
  not return normally, and it tries to post exactly one comment: the comments tried at
  the end of the run are those tried before it and one more, the message \<open>errMsg\<close> makes
  of the error.
\<close>

theorem main_failure_one_comment:
  assumes "failure gh e w = Some err" and "main gh (Inr e) w = (x, w')"
  shows "x \<noteq> Returned \<and> commentsOf (calls w') = commentsOf (calls w) @ [errMsg (Some err)]"
proof (cases "validateEnv e")
  case (Some verr)
  with assms(1) have e: "verr = err" by (simp add: failure_def)
  obtain serr w1 where s: "sendMsg gh (Owner e) (Repo e) (PRNumber e) (errMsg (Some err)) w = (serr, w1)"
    by (cases "sendMsg gh (Owner e) (Repo e) (PRNumber e) (errMsg (Some err)) w")
  from sendMsg_comments [OF s] assms(2) Some e s show ?thesis
    by (cases serr) (auto simp: main_def Printf_calls)
next
  case None
  obtain merr w1 where m: "merge gh (Owner e) (Repo e) (PRNumber e) (MergeMethod e)
      (EnableAutoMerge e) w = (merr, w1)"
    by (cases "merge gh (Owner e) (Repo e) (PRNumber e) (MergeMethod e) (EnableAutoMerge e) w")
  with assms(1) None have merr: "merr = Some err" by (simp add: failure_def)
  obtain serr w2 where s: "sendMsg gh (Owner e) (Repo e) (PRNumber e) (errMsg (Some err)) w1 = (serr, w2)"
    by (cases "sendMsg gh (Owner e) (Repo e) (PRNumber e) (errMsg (Some err)) w1")
  from sendMsg_comments [OF s] merge_comments [OF m] assms(2) None m merr s show ?thesis
    by (cases serr) (auto simp: main_def Printf_calls)
qed

lemma main_one_comment:
  assumes "main gh (Inr e) w = (x, w')"
  shows "\<exists>msg. commentsOf (calls w') = commentsOf (calls w) @ [msg]"
proof (cases "validateEnv e")
  case (Some err)
  obtain serr w1 where s: "sendMsg gh (Owner e) (Repo e) (PRNumber e) (errMsg (Some err)) w = (serr, w1)"
    by (cases "sendMsg gh (Owner e) (Repo e) (PRNumber e) (errMsg (Some err)) w")
  from sendMsg_comments [OF s] assms Some s show ?thesis
    by (cases serr) (auto simp: main_def Printf_calls)
next
  case None
  obtain merr w1 where m: "merge gh (Owner e) (Repo e) (PRNumber e) (MergeMethod e)
      (EnableAutoMerge e) w = (merr, w1)"
    by (cases "merge gh (Owner e) (Repo e) (PRNumber e) (MergeMethod e) (EnableAutoMerge e) w")
  show ?thesis
  proof (cases merr)
    case (Some err)
    obtain serr w2 where s: "sendMsg gh (Owner e) (Repo e) (PRNumber e) (errMsg (Some err)) w1 = (serr, w2)"
      by (cases "sendMsg gh (Owner e) (Repo e) (PRNumber e) (errMsg (Some err)) w1")
    from sendMsg_comments [OF s] merge_comments [OF m] assms None m Some s show ?thesis
      by (cases serr) (auto simp: main_def Printf_calls)
  next
    case mNone: None
    obtain serr w2 where s: "sendMsg gh (Owner e) (Repo e) (PRNumber e)
        (''Merged PR #'' @ Itoa (PRNumber e) @ '' successfully!'') w1 = (serr, w2)"
      by (cases "sendMsg gh (Owner e) (Repo e) (PRNumber e)
        (''Merged PR #'' @ Itoa (PRNumber e) @ '' successfully!'') w1")
    from sendMsg_comments [OF s] merge_comments [OF m] assms None m mNone s show ?thesis
      by (cases serr) (auto simp: main_def Printf_calls Let_def)
  qed
qed

lemma main_load_failure_no_comment:
  "main gh (Inl err) w = (x, w') \<Longrightarrow> x = Panic err \<and> calls w' = calls w"
  by (auto simp: main_def Printf_calls)


theorem main_failure_one_comment_witness:
  "failure
     \<lparr>PullRequests_Get = (\<lambda>owner repo n. Inr \<lparr>Number = Some 7, Title = Some ''Fix crash'',
          Body = None, PullRequest.Labels = []\<rparr>),
      PullRequests_Merge = (\<lambda>owner repo n msg title method.
          Some ''405 At least 2 approving review is required by reviewers with write access.''),
      gh_Run = (\<lambda>args. None),
      Issues_CreateComment = (\<lambda>owner repo n msg. None)\<rparr>
     \<lparr>GithubToken = ''t'', Owner = ''o'', Repo = ''r'', PRNumber = 7, Comment = ''/merge'',
      MergeMethod = ''squash'', Mergers = [], Actor = ''alice'', EnableAutoMerge = False\<rparr>
     \<lparr>calls = [], stdout = []\<rparr>
   = Some ''failed to merge pull request: 405 At least 2 approving review is required by reviewers with write access.''
   \<and> fst (main
     \<lparr>PullRequests_Get = (\<lambda>owner repo n. Inr \<lparr>Number = Some 7, Title = Some ''Fix crash'',
          Body = None, PullRequest.Labels = []\<rparr>),
      PullRequests_Merge = (\<lambda>owner repo n msg title method.
          Some ''405 At least 2 approving review is required by reviewers with write access.''),
      gh_Run = (\<lambda>args. None),
      Issues_CreateComment = (\<lambda>owner repo n msg. None)\<rparr>
     (Inr \<lparr>GithubToken = ''t'', Owner = ''o'', Repo = ''r'', PRNumber = 7, Comment = ''/merge'',
      MergeMethod = ''squash'', Mergers = [], Actor = ''alice'', EnableAutoMerge = False\<rparr>)
     \<lparr>calls = [], stdout = []\<rparr>)
   = Panic ''failed to merge pull request: 405 At least 2 approving review is required by reviewers with write access.''
   \<and> commentsOf (calls (snd (main
     \<lparr>PullRequests_Get = (\<lambda>owner repo n. Inr \<lparr>Number = Some 7, Title = Some ''Fix crash'',
          Body = None, PullRequest.Labels = []\<rparr>),
      PullRequests_Merge = (\<lambda>owner repo n msg title method.
          Some ''405 At least 2 approving review is required by reviewers with write access.''),
      gh_Run = (\<lambda>args. None),
      Issues_CreateComment = (\<lambda>owner repo n msg. None)\<rparr>
     (Inr \<lparr>GithubToken = ''t'', Owner = ''o'', Repo = ''r'', PRNumber = 7, Comment = ''/merge'',
      MergeMethod = ''squash'', Mergers = [], Actor = ''alice'', EnableAutoMerge = False\<rparr>)
     \<lparr>calls = [], stdout = []\<rparr>)))
   = [''Need 2 approving review'']"
proof -
  let ?gh = "\<lparr>PullRequests_Get = (\<lambda>owner repo n. Inr \<lparr>Number = Some 7, Title = Some ''Fix crash'',
          Body = None, PullRequest.Labels = []\<rparr>),
      PullRequests_Merge = (\<lambda>owner repo n msg title method.
          Some ''405 At least 2 approving review is required by reviewers with write access.''),
      gh_Run = (\<lambda>args. None),
      Issues_CreateComment = (\<lambda>owner repo n msg. None)\<rparr>"
  let ?e = "\<lparr>GithubToken = ''t'', Owner = ''o'', Repo = ''r'', PRNumber = 7, Comment = ''/merge'',
      MergeMethod = ''squash'', Mergers = [], Actor = ''alice'', EnableAutoMerge = False\<rparr>"
  let ?w = "\<lparr>calls = [], stdout = []\<rparr>"
  let ?err = "''failed to merge pull request: 405 At least 2 approving review is required by reviewers with write access.''"
  have f: "failure ?gh ?e ?w = Some ?err"
    by (simp add: failure_def validateEnv_def mergeComment_def merge_def
        generateCommitBody_render Let_def)
  have c: "errMsg (Some ?err) = ''Need 2 approving review''"
    by (simp add: errMsg_def needApproveRegexp_def)
  obtain x w' where m: "main ?gh (Inr ?e) ?w = (x, w')"
    by (cases "main ?gh (Inr ?e) ?w")
  have x: "x = Panic ?err"
    using m by (simp add: main_def validateEnv_def mergeComment_def merge_def
        generateCommitBody_render sendMsg_def Let_def c)
  from main_failure_one_comment [OF f m] c have "commentsOf (calls w') = [''Need 2 approving review'']"
    by simp
  with f m x show ?thesis by simp
qed


end
